theory Spec2Isabelle
  imports Complex_Main
begin

section \<open>Python exceptions\<close>

text \<open>
  The exception classes the modelled code can meet; all of them derive from
  \<open>Exception\<close>, so \<open>except Exception\<close> catches every one, and \<open>except ImportError\<close>
  only the second. Each carries its message.
\<close>

datatype exn =
    Exception string
  | ImportError string
  | OSError string
  | ValueError string
  | TypeError string
  | RequestException string
  | ReError string  \<comment> \<open>\<open>re.error\<close>\<close>

section \<open>python_helpers.utilities\<close>

subsection \<open>chunk_list\<close>

text \<open>
  \<^verbatim>\<open>return [lst[i:i + chunk_size] for i in range(0, len(lst), chunk_size)]\<close>

  \<open>range_items\<close> lists the members of \<open>range(i, stop, step)\<close> for a step other than 0;
  \<open>range\<close> raises ValueError on a step of 0. A slice clamps its bounds to the list, a
  negative bound counting from the end.
\<close>

function range_items :: "int \<Rightarrow> int \<Rightarrow> int \<Rightarrow> int list" where
  "range_items i stop step =
     (if (0 < step \<and> i < stop) \<or> (step < 0 \<and> stop < i)
      then i # range_items (i + step) stop step
      else [])"
  by pat_completeness auto
termination
  by (relation "measure (\<lambda>(i, stop, step). nat (if 0 < step then stop - i else i - stop))") auto

declare range_items.simps [simp del]

definition py_range :: "int \<Rightarrow> int \<Rightarrow> int \<Rightarrow> exn + int list" where
  "py_range start stop step =
     (if step = 0 then Inl (ValueError ''range() arg 3 must not be zero'')
      else Inr (range_items start stop step))"

definition slice_index :: "nat \<Rightarrow> int \<Rightarrow> nat" where
  "slice_index n i =
     (let j = (if i < 0 then i + int n else i)
      in if j < 0 then 0 else if int n < j then n else nat j)"

definition py_slice :: "'a list \<Rightarrow> int \<Rightarrow> int \<Rightarrow> 'a list" where
  "py_slice lst i j =
     (let lo = slice_index (length lst) i; hi = slice_index (length lst) j
      in take (hi - lo) (drop lo lst))"

definition chunk_list :: "'a list \<Rightarrow> int \<Rightarrow> exn + 'a list list" where
  "chunk_list lst chunk_size =
     (case py_range 0 (int (length lst)) chunk_size of
        Inl e \<Rightarrow> Inl e
      | Inr idx \<Rightarrow> Inr (map (\<lambda>i. py_slice lst i (i + chunk_size)) idx))"

text \<open>The chunks the comprehension produces from index \<open>i\<close> on.\<close>

definition chunks_from :: "'a list \<Rightarrow> int \<Rightarrow> int \<Rightarrow> 'a list list" where
  "chunks_from lst cs i = map (\<lambda>i. py_slice lst i (i + cs)) (range_items i (int (length lst)) cs)"

subsection \<open>clean_filename\<close>





definition lstrip_chars :: "char list \<Rightarrow> string \<Rightarrow> string" where
  "lstrip_chars cs s = dropWhile (\<lambda>c. c \<in> set cs) s"

definition rstrip_chars :: "char list \<Rightarrow> string \<Rightarrow> string" where
  "rstrip_chars cs s = rev (dropWhile (\<lambda>c. c \<in> set cs) (rev s))"

definition strip_chars :: "char list \<Rightarrow> string \<Rightarrow> string" where
  \<comment> \<open>\<open>s.strip(cs)\<close>\<close>
  "strip_chars cs s = rstrip_chars cs (lstrip_chars cs s)"



subsection \<open>retry_operation\<close>

text \<open>
  The callable \<open>func\<close> takes no argument and may have effects, so it is a state
  transformer that either raises or returns. \<open>time.sleep\<close> is recorded: the result
  carries the list of delays slept, in order. \<open>time.sleep\<close> raises on some arguments (a
  negative one, one too large), from inside the handler, so that exception leaves the
  function: what it raises on which delay is the parameter \<open>time_sleep\<close>. The type of
  the delay is left open (\<open>'d\<close> with its multiplication): the source multiplies whatever
  numbers it is given.
\<close>

datatype 'r retry_outcome = Returned 'r | ReturnedNone | Raised exn

type_synonym ('r, 's) callable = "'s \<Rightarrow> (exn + 'r) \<times> 's"

fun retry_loop ::
  "('r, 's) callable \<Rightarrow> ('d \<Rightarrow> exn option) \<Rightarrow> int \<Rightarrow> 'd::times \<Rightarrow> int list \<Rightarrow> 'd \<Rightarrow> 's
     \<Rightarrow> 'd list \<Rightarrow> 'r retry_outcome \<times> 'd list \<times> 's" where
  "retry_loop func time_sleep max_attempts backoff [] delay s slept = (ReturnedNone, slept, s)"
| "retry_loop func time_sleep max_attempts backoff (attempt # rest) delay s slept =
     (case func s of
        (Inr v, s') \<Rightarrow> (Returned v, slept, s')
      | (Inl e, s') \<Rightarrow>
          if attempt < max_attempts - 1
          then (case time_sleep delay of
                  Some ex \<Rightarrow> (Raised ex, slept, s')
                | None \<Rightarrow> retry_loop func time_sleep max_attempts backoff rest
                            (delay * backoff) s' (slept @ [delay]))
          else (Raised e, slept, s'))"

definition retry_operation ::
  "('r, 's) callable \<Rightarrow> ('d \<Rightarrow> exn option) \<Rightarrow> int \<Rightarrow> 'd::times \<Rightarrow> 'd \<Rightarrow> 's
     \<Rightarrow> 'r retry_outcome \<times> 'd list \<times> 's" where
  "retry_operation func time_sleep max_attempts delay backoff s =
     retry_loop func time_sleep max_attempts backoff (range_items 0 max_attempts 1) delay s []"

definition retry_waits :: "'r retry_outcome \<times> 'd list \<times> 's \<Rightarrow> 'd list" where
  "retry_waits r = fst (snd r)"

text \<open>The state before the call number \<open>k\<close> of the callable (from 0), and what that call gives.\<close>

definition state_before :: "('r, 's) callable \<Rightarrow> 's \<Rightarrow> nat \<Rightarrow> 's" where
  "state_before func s k = ((\<lambda>t. snd (func t)) ^^ k) s"

definition call_result :: "('r, 's) callable \<Rightarrow> 's \<Rightarrow> nat \<Rightarrow> exn + 'r" where
  "call_result func s k = fst (func (state_before func s k))"

text \<open>The delay multiplied \<open>k\<close> times by the backoff.\<close>

definition grown :: "'d::times \<Rightarrow> 'd \<Rightarrow> nat \<Rightarrow> 'd" where
  "grown delay backoff k = ((\<lambda>d. d * backoff) ^^ k) delay"

text \<open>Samples: \<open>time.sleep\<close> on real numbers, and the two callables of the unit tests.\<close>

definition py_sleep :: "real \<Rightarrow> exn option" where
  "py_sleep d = (if d < 0 then Some (ValueError ''sleep length must be non-negative'') else None)"

definition always_fail :: "(unit, unit) callable" where
  "always_fail s = (Inl (Exception ''Always fails''), s)"

definition failing_then_success :: "(string, nat) callable" where
  "failing_then_success count =
     (if Suc count < 3 then Inl (Exception ''Temporary failure'') else Inr ''success'', Suc count)"

section \<open>scripts/automated-tasks/run_pendingReports_task.py\<close>

text \<open>
  One run of the job is a function of the world it starts in (the state file, the mail
  accepted by the SMTP server so far) and of what its environment answers during the run:
  the configuration, the rows the query returns, and which of its input and output
  operations raise. \<open>connection.close()\<close> and \<open>print\<close> are taken not to raise.

  Writing the state opens the file with mode \<open>w\<close>, which creates or truncates it,
  and then writes. When the open raises, the file is as it was; when the write or the
  close raises, the file is left empty.
\<close>

datatype write_failure =
    OpenRaises exn   \<comment> \<open>\<open>open(STATE_FILE, 'w')\<close> raises: nothing has changed\<close>
  | WriteRaises exn  \<comment> \<open>\<open>f.write\<close> or the close raises: the file has been truncated\<close>

record db_row =
  tool_id :: string
  product_name :: string
  count_reports :: nat  \<comment> \<open>\<open>COUNT( * ) AS Reports\<close> of a \<open>GROUP BY\<close>\<close>
  status_text :: string

datatype subject =
    WarningSubject int int  \<comment> \<open>total count, threshold\<close>
  | RecoverySubject int     \<comment> \<open>total count\<close>

record email =
  email_subject :: subject
  report_records :: "db_row list"
  report_total :: int
  report_alert_type :: string

datatype call = SendEmailReport string int | WriteAlertState string

record world =
  state_file :: "string option"  \<comment> \<open>content of \<open>alert_state.txt\<close>, \<open>None\<close> when absent\<close>
  outbox :: "email list"         \<comment> \<open>messages the SMTP server accepted\<close>
  calls :: "call list"           \<comment> \<open>calls of \<open>send_email_report\<close> and \<open>write_alert_state\<close>, in order\<close>

record run_env =
  ALERT_THRESHOLD :: int
  db_connect :: "exn + unit"                 \<comment> \<open>\<open>pyodbc.connect\<close>\<close>
  db_query :: "exn + db_row option list"     \<comment> \<open>\<open>execute\<close> and \<open>fetchall\<close>; \<open>None\<close> is a row whose processing raises\<close>
  state_read_error :: "exn option"           \<comment> \<open>\<open>open(STATE_FILE, 'r')\<close> or \<open>read\<close> raises\<close>
  state_write_error :: "write_failure option"  \<comment> \<open>how writing the state file fails, if it does\<close>
  smtp_error :: "exn option"                 \<comment> \<open>building or sending the message raises\<close>

definition connect_to_database :: "run_env \<Rightarrow> unit option" where
  "connect_to_database e = (case db_connect e of Inl ex \<Rightarrow> None | Inr connection \<Rightarrow> Some connection)"

fun process_rows :: "db_row option list \<Rightarrow> db_row list \<Rightarrow> int \<Rightarrow> db_row list \<times> int" where
  "process_rows [] records total_count = (records, total_count)"
| "process_rows (None # rows) records total_count = process_rows rows records total_count"
| "process_rows (Some row # rows) records total_count =
     process_rows rows (records @ [row]) (total_count + int (count_reports row))"

definition get_pending_records_from_database :: "run_env \<Rightarrow> db_row list \<times> int" where
  "get_pending_records_from_database e =
     (case db_query e of
        Inl ex \<Rightarrow> ([], 0)
      | Inr rows \<Rightarrow> process_rows rows [] 0)"

definition whitespace :: "char list" where
  "whitespace = [CHR 0x09, CHR 0x0A, CHR 0x0B, CHR 0x0C, CHR 0x0D, CHR 0x1C, CHR 0x1D,
                 CHR 0x1E, CHR 0x1F, CHR '' '', CHR 0x85, CHR 0xA0]"

definition py_strip :: "string \<Rightarrow> string" where
  "py_strip s = strip_chars whitespace s"

definition open_read_state_file :: "run_env \<Rightarrow> world \<Rightarrow> exn + string" where
  "open_read_state_file e w =
     (case state_read_error e of
        Some ex \<Rightarrow> Inl ex
      | None \<Rightarrow>
          (case state_file w of
             None \<Rightarrow> Inl (OSError ''No such file or directory'')
           | Some content \<Rightarrow> Inr content))"

definition read_last_alert_state :: "run_env \<Rightarrow> world \<Rightarrow> string" where
  "read_last_alert_state e w =
     (case (if state_file w \<noteq> None
            then (case open_read_state_file e w of
                    Inl ex \<Rightarrow> Inl ex
                  | Inr content \<Rightarrow> Inr (py_strip content))
            else Inr ''NORMAL'')
      of Inl ex \<Rightarrow> ''NORMAL''
       | Inr state \<Rightarrow> state)"

definition write_alert_state :: "run_env \<Rightarrow> string \<Rightarrow> world \<Rightarrow> world" where
  "write_alert_state e state w =
     (let w' = w\<lparr>calls := calls w @ [WriteAlertState state]\<rparr>
      in case state_write_error e of
           None \<Rightarrow> w'\<lparr>state_file := Some state\<rparr>
         | Some (OpenRaises ex) \<Rightarrow> w'
         | Some (WriteRaises ex) \<Rightarrow> w'\<lparr>state_file := Some []\<rparr>)"

definition make_email :: "run_env \<Rightarrow> db_row list \<Rightarrow> int \<Rightarrow> string \<Rightarrow> email" where
  "make_email e records total_count alert_type =
     \<lparr>email_subject = (if alert_type = ''WARNING''
                        then WarningSubject total_count (ALERT_THRESHOLD e)
                        else RecoverySubject total_count),
      report_records = records,
      report_total = total_count,
      report_alert_type = alert_type\<rparr>"

definition send_email_report ::
  "run_env \<Rightarrow> db_row list \<Rightarrow> int \<Rightarrow> string \<Rightarrow> world \<Rightarrow> bool \<times> world" where
  "send_email_report e records total_count alert_type w =
     (let w' = w\<lparr>calls := calls w @ [SendEmailReport alert_type total_count]\<rparr>
      in case smtp_error e of
           None \<Rightarrow> (True, w'\<lparr>outbox := outbox w' @ [make_email e records total_count alert_type]\<rparr>)
         | Some ex \<Rightarrow> (False, w'))"

definition main :: "run_env \<Rightarrow> world \<Rightarrow> world" where
  "main e w =
     (case connect_to_database e of
        None \<Rightarrow> w
      | Some connection \<Rightarrow>
          (let (records, total_count) = get_pending_records_from_database e;
               last_state = read_last_alert_state e w
           in if total_count > ALERT_THRESHOLD e then
                write_alert_state e ''WARNING''
                  (snd (send_email_report e records total_count ''WARNING'' w))
              else if total_count \<le> ALERT_THRESHOLD e \<and> total_count \<ge> 0 then
                (if last_state = ''WARNING'' then
                   write_alert_state e ''NORMAL''
                     (snd (send_email_report e records total_count ''RECOVERY'' w))
                 else w)
              else w))"





text \<open>Sample runs: one group of \<open>n\<close> pending reports against a threshold of 50.\<close>

definition sample_row :: "nat \<Rightarrow> db_row" where
  "sample_row n = \<lparr>tool_id = ''T1'', product_name = ''Scanner'', count_reports = n,
                    status_text = ''Pending''\<rparr>"

definition sample_env :: "nat \<Rightarrow> run_env" where
  "sample_env n = \<lparr>ALERT_THRESHOLD = 50, db_connect = Inr (), db_query = Inr [Some (sample_row n)],
                    state_read_error = None, state_write_error = None, smtp_error = None\<rparr>"

definition sample_world :: "string option \<Rightarrow> world" where
  "sample_world content = \<lparr>state_file = content, outbox = [], calls = []\<rparr>"

section \<open>python_helpers: file, CSV and HTTP helpers\<close>

subsection \<open>The machine the helpers run on\<close>

text \<open>
  The helpers read and change the file system, print to the console and talk to the
  network. The state they change is \<open>os_state\<close>. What they cannot decide themselves
  is asked of an environment \<open>lib_env\<close>: which operations raise (\<open>fault\<close>, where
  \<open>Print\<close> is a \<open>print\<close> to a closed or non-encoding standard output), the path
  arithmetic of \<open>pathlib\<close>, the \<open>json\<close> and \<open>csv\<close> codecs, the answers of the web
  server. A computation takes the state and gives back either the exception it raises or
  its value, with the state it leaves.
\<close>

record os_state =
  files :: "string \<rightharpoonup> string"   \<comment> \<open>regular files, by path\<close>
  dirs :: "string set"             \<comment> \<open>directories\<close>
  printed :: "string list"         \<comment> \<open>lines written by \<open>print\<close>\<close>
  requests_made :: nat             \<comment> \<open>calls of \<open>requests.get\<close> so far\<close>
  sleeps :: nat                    \<comment> \<open>calls of \<open>time.sleep\<close> so far\<close>

datatype io_op =
    Print
  | Import string
  | Exists string
  | Mkdir string
  | OpenRead string
  | OpenWrite string
  | WriteTo string
  | Stat string
  | Copy string string

record stat_result =
  st_size :: nat
  st_mtime :: int
  st_ctime :: int

record response =
  status_code :: nat
  content :: string

type_synonym csv_row = "(string \<times> string) list"

record 'j lib_env =
  fault :: "io_op \<Rightarrow> exn option"
  partial_output :: "string \<Rightarrow> string"        \<comment> \<open>what a write that raises leaves in the file\<close>
  path_parent :: "string \<Rightarrow> string"
  path_name :: "string \<Rightarrow> string"
  path_suffix :: "string \<Rightarrow> string"
  path_absolute :: "string \<Rightarrow> string"
  path_join :: "string \<Rightarrow> string \<Rightarrow> string"
  os_stat :: "string \<Rightarrow> stat_result"
  json_dump :: "'j \<Rightarrow> int \<Rightarrow> exn + string"    \<comment> \<open>\<open>json.dump(data, f, indent=indent, ensure_ascii=False)\<close>\<close>
  json_load :: "string \<Rightarrow> exn + 'j"
  csv_DictReader :: "string \<Rightarrow> string \<Rightarrow> exn + csv_row list"
  csv_DictWriter :: "string list \<Rightarrow> string \<Rightarrow> csv_row list \<Rightarrow> exn + string"
  requests_get :: "string \<Rightarrow> (string \<times> string) list \<Rightarrow> int \<Rightarrow> nat \<Rightarrow> exn + response"
    \<comment> \<open>url, headers, timeout, number of earlier calls\<close>

type_synonym 'a io = "os_state \<Rightarrow> (exn + 'a) \<times> os_state"

definition io_return :: "'a \<Rightarrow> 'a io" where
  "io_return x = (\<lambda>w. (Inr x, w))"

definition io_raise :: "exn \<Rightarrow> 'a io" where
  "io_raise ex = (\<lambda>w. (Inl ex, w))"

definition io_bind :: "'a io \<Rightarrow> ('a \<Rightarrow> 'b io) \<Rightarrow> 'b io" where
  "io_bind m f = (\<lambda>w. case m w of (Inl ex, w') \<Rightarrow> (Inl ex, w') | (Inr x, w') \<Rightarrow> f x w')"

definition io_lift :: "exn + 'a \<Rightarrow> 'a io" where
  "io_lift r = (case r of Inl ex \<Rightarrow> io_raise ex | Inr x \<Rightarrow> io_return x)"

definition try_except :: "'a io \<Rightarrow> (exn \<Rightarrow> 'a io) \<Rightarrow> 'a io" where
  \<comment> \<open>\<open>try: m  except Exception as e: h e\<close>\<close>
  "try_except m h = (\<lambda>w. case m w of (Inl ex, w') \<Rightarrow> h ex w' | (Inr x, w') \<Rightarrow> (Inr x, w'))"



fun exn_str :: "exn \<Rightarrow> string" where
  "exn_str (Exception m) = m"
| "exn_str (ImportError m) = m"
| "exn_str (OSError m) = m"
| "exn_str (ValueError m) = m"
| "exn_str (TypeError m) = m"
| "exn_str (RequestException m) = m"
| "exn_str (ReError m) = m"

definition check :: "'j lib_env \<Rightarrow> io_op \<Rightarrow> unit io" where
  "check env op = (case fault env op of Some ex \<Rightarrow> io_raise ex | None \<Rightarrow> io_return ())"

definition print_line :: "'j lib_env \<Rightarrow> string \<Rightarrow> unit io" where
  \<comment> \<open>\<open>print\<close> writes to the standard output, and raises when that fails\<close>
  "print_line env s =
     io_bind (check env Print) (\<lambda>_ w. (Inr (), w\<lparr>printed := printed w @ [s]\<rparr>))"



definition mkdir_parents :: "'j lib_env \<Rightarrow> string \<Rightarrow> unit io" where
  \<comment> \<open>\<open>path.mkdir(parents=True, exist_ok=True)\<close>\<close>
  "mkdir_parents env p =
     io_bind (check env (Mkdir p))
       (\<lambda>_ w. if files w p \<noteq> None then (Inl (OSError ''File exists''), w)
               else (Inr (), w\<lparr>dirs := insert p (dirs w)\<rparr>))"

definition open_read :: "'j lib_env \<Rightarrow> string \<Rightarrow> string io" where
  \<comment> \<open>open for reading and read the whole text\<close>
  "open_read env p =
     io_bind (check env (OpenRead p))
       (\<lambda>_ w. case files w p of
                 None \<Rightarrow> (Inl (OSError ''No such file or directory''), w)
               | Some text \<Rightarrow> (Inr text, w))"

definition open_write :: "'j lib_env \<Rightarrow> string \<Rightarrow> unit io" where
  \<comment> \<open>open for writing: the file is created or truncated\<close>
  "open_write env p =
     io_bind (check env (OpenWrite p))
       (\<lambda>_ w. if p \<in> dirs w then (Inl (OSError ''Is a directory''), w)
               else (Inr (), w\<lparr>files := (files w)(p \<mapsto> [])\<rparr>))"

definition write_to :: "'j lib_env \<Rightarrow> string \<Rightarrow> exn + string \<Rightarrow> unit io" where
  \<comment> \<open>write what the encoder produced into the open file, and close it\<close>
  "write_to env p encoded =
     (\<lambda>w. case encoded of
            Inl ex \<Rightarrow> (Inl ex, w\<lparr>files := (files w)(p \<mapsto> partial_output env p)\<rparr>)
          | Inr text \<Rightarrow>
              (case fault env (WriteTo p) of
                 Some ex \<Rightarrow> (Inl ex, w\<lparr>files := (files w)(p \<mapsto> partial_output env p)\<rparr>)
               | None \<Rightarrow> (Inr (), w\<lparr>files := (files w)(p \<mapsto> text)\<rparr>)))"

subsection \<open>python_helpers.file_ops\<close>

definition ensure_directory :: "'j lib_env \<Rightarrow> string \<Rightarrow> string io" where
  "ensure_directory env directory_path =
     io_bind (mkdir_parents env directory_path) (\<lambda>_. io_return directory_path)"




definition read_json_try :: "'j lib_env \<Rightarrow> string \<Rightarrow> 'j option io" where
  "read_json_try env file_path =
     io_bind (open_read env file_path) (\<lambda>text.
       io_bind (io_lift (json_load env text)) (\<lambda>data. io_return (Some data)))"

definition read_json :: "'j lib_env \<Rightarrow> string \<Rightarrow> 'j option io" where
  "read_json env file_path =
     try_except (read_json_try env file_path)
       (\<lambda>ex. io_bind (print_line env (''Error reading JSON file '' @ file_path @ '': '' @ exn_str ex))
                (\<lambda>_. io_return None))"

definition write_json_try :: "'j lib_env \<Rightarrow> 'j \<Rightarrow> string \<Rightarrow> int \<Rightarrow> bool io" where
  "write_json_try env data file_path indent =
     io_bind (ensure_directory env (path_parent env file_path)) (\<lambda>_.
       io_bind (open_write env file_path) (\<lambda>_.
         io_bind (write_to env file_path (json_dump env data indent)) (\<lambda>_.
           io_return True)))"

definition write_json :: "'j lib_env \<Rightarrow> 'j \<Rightarrow> string \<Rightarrow> int \<Rightarrow> bool io" where
  "write_json env data file_path indent =
     try_except (write_json_try env data file_path indent)
       (\<lambda>ex. io_bind (print_line env (''Error writing JSON file '' @ file_path @ '': '' @ exn_str ex))
                (\<lambda>_. io_return False))"





subsection \<open>python_helpers.data_processing\<close>





subsection \<open>python_helpers.web_scraping\<close>

function str_nat :: "nat \<Rightarrow> string" where
  "str_nat n =
     (if n < 10 then [char_of (48 + n)] else str_nat (n div 10) @ [char_of (48 + n mod 10)])"
  by pat_completeness auto
termination
  by (relation "measure (\<lambda>n. n)") auto

declare str_nat.simps [simp del]

definition str_int :: "int \<Rightarrow> string" where
  "str_int i = (if i < 0 then ''-'' @ str_nat (nat (- i)) else str_nat (nat i))"















subsection \<open>A sample machine\<close>

text \<open>
  A sample of what \<open>json\<close> does, on dictionaries whose keys are integers or strings and
  whose values are strings, all of characters that need no escape: \<open>json.dump\<close> writes
  every key as a string, an integer key in decimal; \<open>json.load\<close> reads every key back as
  a string.
\<close>

datatype py_key = IntKey int | StrKey string

type_synonym py_dict = "(py_key \<times> string) list"

definition json_key :: "py_key \<Rightarrow> string" where
  "json_key k = (case k of IntKey i \<Rightarrow> str_int i | StrKey s \<Rightarrow> s)"

definition json_quote :: "string \<Rightarrow> string" where
  "json_quote s = [CHR 0x22] @ s @ [CHR 0x22]"

fun json_join :: "string \<Rightarrow> string list \<Rightarrow> string" where
  "json_join sep [] = []"
| "json_join sep [x] = x"
| "json_join sep (x # y # ys) = x @ sep @ json_join sep (y # ys)"

definition py_json_dump :: "py_dict \<Rightarrow> int \<Rightarrow> exn + string" where
  "py_json_dump d indent =
     (if d = [] then Inr ''{}''
      else
        (let nl = [CHR 0x0A] @ replicate (nat indent) CHR '' '';
             items = map (\<lambda>(k, v). json_quote (json_key k) @ '': '' @ json_quote v) d
         in Inr (''{'' @ nl @ json_join ('','' @ nl) items @ [CHR 0x0A] @ ''}'')))"

definition the_enc :: "py_dict \<Rightarrow> string" where
  \<comment> \<open>the text written for a dictionary with an indent of 2\<close>
  "the_enc d = (case py_json_dump d 2 of Inl ex \<Rightarrow> [] | Inr enc \<Rightarrow> enc)"

datatype json_token = TString string | TLBrace | TRBrace | TColon | TComma

fun json_scan :: "string option \<Rightarrow> string \<Rightarrow> json_token list option" where
  "json_scan None [] = Some []"
| "json_scan (Some acc) [] = None"
| "json_scan (Some acc) (c # cs) =
     (if c = CHR 0x22 then map_option (Cons (TString acc)) (json_scan None cs)
      else json_scan (Some (acc @ [c])) cs)"
| "json_scan None (c # cs) =
     (if c = CHR 0x22 then json_scan (Some []) cs
      else if c = CHR '' '' \<or> c = CHR 0x0A then json_scan None cs
      else if c = CHR ''{'' then map_option (Cons TLBrace) (json_scan None cs)
      else if c = CHR ''}'' then map_option (Cons TRBrace) (json_scan None cs)
      else if c = CHR '':'' then map_option (Cons TColon) (json_scan None cs)
      else if c = CHR '','' then map_option (Cons TComma) (json_scan None cs)
      else None)"

fun json_items :: "json_token list \<Rightarrow> py_dict option" where
  "json_items [TString k, TColon, TString v, TRBrace] = Some [(StrKey k, v)]"
| "json_items (TString k # TColon # TString v # TComma # rest) =
     map_option (Cons (StrKey k, v)) (json_items rest)"
| "json_items toks = None"

definition py_json_load :: "string \<Rightarrow> exn + py_dict" where
  "py_json_load t =
     (case json_scan None t of
        None \<Rightarrow> Inl (ValueError ''Expecting value'')
      | Some toks \<Rightarrow>
          (case toks of
             [TLBrace, TRBrace] \<Rightarrow> Inr []
           | TLBrace # rest \<Rightarrow>
               (case json_items rest of
                  None \<Rightarrow> Inl (ValueError ''Expecting value'')
                | Some d \<Rightarrow> Inr d)
           | _ \<Rightarrow> Inl (ValueError ''Expecting value'')))"

text \<open>
  The sample machine: an empty file system, operations that raise as \<open>f\<close> says, the
  sample of \<open>json\<close>, and a web server that refuses every connection.
\<close>

definition sample_lib_env :: "(io_op \<Rightarrow> exn option) \<Rightarrow> py_dict lib_env" where
  "sample_lib_env f =
     \<lparr>fault = f,
      partial_output = (\<lambda>p. []),
      path_parent = (\<lambda>p. ''/tmp''),
      path_name = (\<lambda>p. p),
      path_suffix = (\<lambda>p. []),
      path_absolute = (\<lambda>p. p),
      path_join = (\<lambda>d n. d @ ''/'' @ n),
      os_stat = (\<lambda>p. \<lparr>st_size = 0, st_mtime = 0, st_ctime = 0\<rparr>),
      json_dump = py_json_dump,
      json_load = py_json_load,
      csv_DictReader = (\<lambda>d t. Inr []),
      csv_DictWriter = (\<lambda>fs d rows. Inr []),
      requests_get = (\<lambda>u h t k. Inl (RequestException ''Connection refused''))\<rparr>"

definition sample_os :: os_state where
  "sample_os = \<lparr>files = Map.empty, dirs = {}, printed = [], requests_made = 0, sleeps = 0\<rparr>"

definition no_fault :: "io_op \<Rightarrow> exn option" where
  "no_fault op = None"




section \<open>Stripping characters from both ends\<close>


lemma rstrip_split:
  "s = rstrip_chars cs s @ rev (takeWhile (\<lambda>c. c \<in> set cs) (rev s))"
proof -
  let ?P = "\<lambda>c. c \<in> set cs"
  have "rev (dropWhile ?P (rev s)) @ rev (takeWhile ?P (rev s))
          = rev (takeWhile ?P (rev s) @ dropWhile ?P (rev s))"
    by (simp only: rev_append)
  also have "\<dots> = s"
    by (simp only: takeWhile_dropWhile_id rev_rev_ident)
  finally show ?thesis
    by (simp add: rstrip_chars_def)
qed

lemma lstrip_head: "lstrip_chars cs s = [] \<or> hd (lstrip_chars cs s) \<notin> set cs"
  unfolding lstrip_chars_def using hd_dropWhile [of "\<lambda>c. c \<in> set cs" s] by blast

lemma rstrip_head:
  assumes "rstrip_chars cs s \<noteq> []"
  shows "hd (rstrip_chars cs s) = hd s"
proof -
  have "s = rstrip_chars cs s @ rev (takeWhile (\<lambda>c. c \<in> set cs) (rev s))"
    by (rule rstrip_split)
  then show ?thesis using assms by (metis hd_append2)
qed

lemma rstrip_last:
  assumes "rstrip_chars cs s \<noteq> []"
  shows "last (rstrip_chars cs s) \<notin> set cs"
proof -
  let ?d = "dropWhile (\<lambda>c. c \<in> set cs) (rev s)"
  have ne: "?d \<noteq> []" using assms by (simp add: rstrip_chars_def)
  have "last (rstrip_chars cs s) = hd ?d"
    by (simp add: rstrip_chars_def last_rev)
  moreover have "hd ?d \<notin> set cs" using ne hd_dropWhile by blast
  ultimately show ?thesis by simp
qed





lemma strip_chars_spec:
  "\<exists>pre suf. s = pre @ strip_chars cs s @ suf
      \<and> set pre \<subseteq> set cs \<and> set suf \<subseteq> set cs
      \<and> (strip_chars cs s = [] \<or>
           (hd (strip_chars cs s) \<notin> set cs \<and> last (strip_chars cs s) \<notin> set cs))"
proof -
  let ?P = "\<lambda>c. c \<in> set cs"
  let ?a = "lstrip_chars cs s"
  let ?pre = "takeWhile ?P s"
  let ?suf = "rev (takeWhile ?P (rev ?a))"
  have s: "s = ?pre @ ?a" by (simp add: lstrip_chars_def)
  have a: "?a = strip_chars cs s @ ?suf"
    unfolding strip_chars_def by (rule rstrip_split)
  have 1: "s = ?pre @ strip_chars cs s @ ?suf" using s a by metis
  have 2: "set ?pre \<subseteq> set cs" using set_takeWhileD by fastforce
  have 3: "set ?suf \<subseteq> set cs" using set_takeWhileD by fastforce
  have 4: "strip_chars cs s = [] \<or>
           (hd (strip_chars cs s) \<notin> set cs \<and> last (strip_chars cs s) \<notin> set cs)"
  proof (cases "strip_chars cs s = []")
    case True
    then show ?thesis by simp
  next
    case False
    then have ne: "rstrip_chars cs ?a \<noteq> []" by (simp add: strip_chars_def)
    then have "?a \<noteq> []" by (auto simp: rstrip_chars_def)
    then have "hd ?a \<notin> set cs" using lstrip_head by blast
    then have "hd (strip_chars cs s) \<notin> set cs"
      using rstrip_head [OF ne] by (simp add: strip_chars_def)
    moreover have "last (strip_chars cs s) \<notin> set cs"
      using rstrip_last [OF ne] by (simp add: strip_chars_def)
    ultimately show ?thesis by simp
  qed
  show ?thesis using 1 2 3 4 by blast
qed


section \<open>The pending-reports job\<close>

subsection \<open>The total count is never negative\<close>

lemma process_rows_total: "acc \<le> snd (process_rows rows records acc)"
proof (induction rows records acc rule: process_rows.induct)
  case (1 records total_count)
  show ?case by simp
next
  case (2 rows records total_count)
  then show ?case by simp
next
  case (3 row rows records total_count)
  have "total_count \<le> total_count + int (count_reports row)" by simp
  also have "\<dots> \<le> snd (process_rows rows (records @ [row]) (total_count + int (count_reports row)))"
    by (rule "3.IH")
  finally show ?case by simp
qed

lemma total_count_nonneg: "0 \<le> snd (get_pending_records_from_database e)"
  unfolding get_pending_records_from_database_def
  using process_rows_total [of 0] by (simp split: sum.split)


lemma py_strip_WARNING: "py_strip ''WARNING'' = ''WARNING''"
  by code_simp

lemma sample_records:
  "get_pending_records_from_database (sample_env n) = ([sample_row n], int n)"
  by (simp add: get_pending_records_from_database_def sample_env_def sample_row_def)

lemma sample_connect: "connect_to_database (sample_env n) = Some ()"
  by (simp add: connect_to_database_def sample_env_def)

subsection \<open>Above the threshold\<close>

text \<open>
  Claim C1. In every run that reaches the database and counts more pending reports than
  \<open>ALERT_THRESHOLD\<close>, whatever the state file held before, the job calls
  \<open>send_email_report\<close> with \<open>WARNING\<close> and then \<open>write_alert_state\<close> with
  \<open>WARNING\<close>, and makes no other such call. The SMTP server receives exactly that one
  message, with the warning subject, unless sending raises (the exception is logged and
  swallowed); the state file holds \<open>WARNING\<close> afterwards unless writing it raises: it
  is then as it was when the open raised, and empty when the write raised.
\<close>

theorem warning_when_above_threshold:
  assumes "connect_to_database e = Some connection"
    and "get_pending_records_from_database e = (records, total_count)"
    and "total_count > ALERT_THRESHOLD e"
  shows "calls (main e w)
           = calls w @ [SendEmailReport ''WARNING'' total_count, WriteAlertState ''WARNING'']
       \<and> outbox (main e w)
           = (case smtp_error e of
                None \<Rightarrow> outbox w @ [make_email e records total_count ''WARNING'']
              | Some ex \<Rightarrow> outbox w)
       \<and> email_subject (make_email e records total_count ''WARNING'')
           = WarningSubject total_count (ALERT_THRESHOLD e)
       \<and> state_file (main e w)
           = (case state_write_error e of
                None \<Rightarrow> Some ''WARNING''
              | Some (OpenRaises ex) \<Rightarrow> state_file w
              | Some (WriteRaises ex) \<Rightarrow> Some [])"
  using assms
  by (auto simp: main_def write_alert_state_def send_email_report_def make_email_def Let_def
           split: option.splits write_failure.splits)

theorem warning_when_above_threshold_witness:
  "connect_to_database (sample_env 60) = Some ()
   \<and> get_pending_records_from_database (sample_env 60) = ([sample_row 60], 60)
   \<and> 60 > ALERT_THRESHOLD (sample_env 60)
   \<and> calls (main (sample_env 60) (sample_world (Some ''WARNING'')))
       = [SendEmailReport ''WARNING'' 60, WriteAlertState ''WARNING'']
   \<and> outbox (main (sample_env 60) (sample_world (Some ''WARNING'')))
       = [make_email (sample_env 60) [sample_row 60] 60 ''WARNING'']
   \<and> state_file (main (sample_env 60) (sample_world (Some ''WARNING''))) = Some ''WARNING''"
proof -
  have c: "connect_to_database (sample_env 60) = Some ()" by (rule sample_connect)
  have r: "get_pending_records_from_database (sample_env 60) = ([sample_row 60], 60)"
    using sample_records [of 60] by simp
  have t: "60 > ALERT_THRESHOLD (sample_env 60)" by (simp add: sample_env_def)
  show ?thesis
    using warning_when_above_threshold [OF c r t, of "sample_world (Some ''WARNING'')"] c r t
    by (simp add: sample_env_def sample_world_def)
qed

subsection \<open>Back at or below the threshold\<close>

text \<open>
  Claim C2. In every run that reaches the database, counts at most \<open>ALERT_THRESHOLD\<close>
  pending reports and reads \<open>WARNING\<close> as the last state, the job calls
  \<open>send_email_report\<close> once, with \<open>RECOVERY\<close>, and then \<open>write_alert_state\<close> with
  \<open>NORMAL\<close>. The SMTP server receives exactly that one message, with the recovery
  subject, unless sending raises; the state file holds \<open>NORMAL\<close> afterwards unless
  writing it raises: it is then as it was when the open raised, and empty when the write
  raised.
\<close>

theorem recovery_after_warning:
  assumes "connect_to_database e = Some connection"
    and "get_pending_records_from_database e = (records, total_count)"
    and "total_count \<le> ALERT_THRESHOLD e"
    and "read_last_alert_state e w = ''WARNING''"
  shows "calls (main e w)
           = calls w @ [SendEmailReport ''RECOVERY'' total_count, WriteAlertState ''NORMAL'']
       \<and> outbox (main e w)
           = (case smtp_error e of
                None \<Rightarrow> outbox w @ [make_email e records total_count ''RECOVERY'']
              | Some ex \<Rightarrow> outbox w)
       \<and> email_subject (make_email e records total_count ''RECOVERY'')
           = RecoverySubject total_count
       \<and> state_file (main e w)
           = (case state_write_error e of
                None \<Rightarrow> Some ''NORMAL''
              | Some (OpenRaises ex) \<Rightarrow> state_file w
              | Some (WriteRaises ex) \<Rightarrow> Some [])"
proof -
  have "0 \<le> total_count" using total_count_nonneg [of e] assms(2) by simp
  then show ?thesis
    using assms
    by (auto simp: main_def write_alert_state_def send_email_report_def make_email_def Let_def
             split: option.splits write_failure.splits)
qed

theorem recovery_after_warning_witness:
  "connect_to_database (sample_env 7) = Some ()
   \<and> get_pending_records_from_database (sample_env 7) = ([sample_row 7], 7)
   \<and> 7 \<le> ALERT_THRESHOLD (sample_env 7)
   \<and> read_last_alert_state (sample_env 7) (sample_world (Some ''WARNING'')) = ''WARNING''
   \<and> calls (main (sample_env 7) (sample_world (Some ''WARNING'')))
       = [SendEmailReport ''RECOVERY'' 7, WriteAlertState ''NORMAL'']
   \<and> outbox (main (sample_env 7) (sample_world (Some ''WARNING'')))
       = [make_email (sample_env 7) [sample_row 7] 7 ''RECOVERY'']
   \<and> state_file (main (sample_env 7) (sample_world (Some ''WARNING''))) = Some ''NORMAL''"
proof -
  have c: "connect_to_database (sample_env 7) = Some ()" by (rule sample_connect)
  have r: "get_pending_records_from_database (sample_env 7) = ([sample_row 7], 7)"
    using sample_records [of 7] by simp
  have t: "7 \<le> ALERT_THRESHOLD (sample_env 7)" by (simp add: sample_env_def)
  have l: "read_last_alert_state (sample_env 7) (sample_world (Some ''WARNING'')) = ''WARNING''"
    by (simp add: read_last_alert_state_def open_read_state_file_def sample_env_def
                  sample_world_def py_strip_WARNING)
  show ?thesis
    using recovery_after_warning [OF c r t l] c r t l
    by (simp add: sample_env_def sample_world_def)
qed

text \<open>
  Claim C3. In every run that counts at most \<open>ALERT_THRESHOLD\<close> pending reports and
  reads a last state other than \<open>WARNING\<close>, the job leaves the world as it found it: no
  call of \<open>send_email_report\<close> or \<open>write_alert_state\<close>, no message sent, the state
  file untouched.
\<close>

theorem nothing_when_normal:
  assumes "get_pending_records_from_database e = (records, total_count)"
    and "total_count \<le> ALERT_THRESHOLD e"
    and "read_last_alert_state e w \<noteq> ''WARNING''"
  shows "main e w = w"
  using assms by (simp add: main_def Let_def split: option.splits)

theorem nothing_when_normal_witness:
  "get_pending_records_from_database (sample_env 7) = ([sample_row 7], 7)
   \<and> 7 \<le> ALERT_THRESHOLD (sample_env 7)
   \<and> read_last_alert_state (sample_env 7) (sample_world None) \<noteq> ''WARNING''
   \<and> main (sample_env 7) (sample_world None) = sample_world None"
proof -
  have r: "get_pending_records_from_database (sample_env 7) = ([sample_row 7], 7)"
    using sample_records [of 7] by simp
  have t: "7 \<le> ALERT_THRESHOLD (sample_env 7)" by (simp add: sample_env_def)
  have l: "read_last_alert_state (sample_env 7) (sample_world None) \<noteq> ''WARNING''"
    by (simp add: read_last_alert_state_def sample_world_def)
  show ?thesis
    using nothing_when_normal [OF r t l] r t l by simp
qed

subsection \<open>What the state file can hold\<close>











subsection \<open>Reading the last state\<close>

text \<open>
  Claim C5. \<open>read_last_alert_state\<close> returns \<open>NORMAL\<close> when the state file is absent,
  and also when opening or reading an existing file raises. Otherwise it returns the
  content stripped: the content is the result between a run of whitespace before it and
  a run of whitespace after it, and the result neither starts nor ends with whitespace.
\<close>

theorem read_last_alert_state_cases:
  "(state_file w = None \<longrightarrow> read_last_alert_state e w = ''NORMAL'')
   \<and> (\<forall>content ex. state_file w = Some content \<and> state_read_error e = Some ex
         \<longrightarrow> read_last_alert_state e w = ''NORMAL'')
   \<and> (\<forall>content. state_file w = Some content \<and> state_read_error e = None
         \<longrightarrow> read_last_alert_state e w = py_strip content
             \<and> (\<exists>pre suf. content = pre @ read_last_alert_state e w @ suf
                   \<and> set pre \<subseteq> set whitespace \<and> set suf \<subseteq> set whitespace
                   \<and> (read_last_alert_state e w = [] \<or>
                        (hd (read_last_alert_state e w) \<notin> set whitespace
                         \<and> last (read_last_alert_state e w) \<notin> set whitespace))))"
proof (intro conjI allI impI)
  assume "state_file w = None"
  then show "read_last_alert_state e w = ''NORMAL''"
    by (simp add: read_last_alert_state_def)
next
  fix content ex
  assume "state_file w = Some content \<and> state_read_error e = Some ex"
  then show "read_last_alert_state e w = ''NORMAL''"
    by (simp add: read_last_alert_state_def open_read_state_file_def)
next
  fix content
  assume a: "state_file w = Some content \<and> state_read_error e = None"
  then show r: "read_last_alert_state e w = py_strip content"
    by (simp add: read_last_alert_state_def open_read_state_file_def)
  show "\<exists>pre suf. content = pre @ read_last_alert_state e w @ suf
          \<and> set pre \<subseteq> set whitespace \<and> set suf \<subseteq> set whitespace
          \<and> (read_last_alert_state e w = [] \<or>
               (hd (read_last_alert_state e w) \<notin> set whitespace
                \<and> last (read_last_alert_state e w) \<notin> set whitespace))"
    unfolding r py_strip_def by (rule strip_chars_spec)
qed

theorem read_last_alert_state_cases_witness:
  "read_last_alert_state (sample_env 7) (sample_world None) = ''NORMAL''
   \<and> read_last_alert_state ((sample_env 7)\<lparr>state_read_error := Some (OSError ''Permission denied'')\<rparr>)
         (sample_world (Some ''WARNING'')) = ''NORMAL''
   \<and> read_last_alert_state (sample_env 7) (sample_world (Some ('' WARNING'' @ [CHR 0x0A])))
       = ''WARNING''"
proof -
  let ?bad = "(sample_env 7)\<lparr>state_read_error := Some (OSError ''Permission denied'')\<rparr>"
  let ?file = "'' WARNING'' @ [CHR 0x0A]"
  have a: "read_last_alert_state (sample_env 7) (sample_world None) = ''NORMAL''"
    using read_last_alert_state_cases [of "sample_world None" "sample_env 7"]
    by (simp add: sample_world_def)
  have b: "read_last_alert_state ?bad (sample_world (Some ''WARNING'')) = ''NORMAL''"
    using read_last_alert_state_cases [of "sample_world (Some ''WARNING'')" ?bad]
    by (simp add: sample_world_def sample_env_def)
  have s: "py_strip ?file = ''WARNING''" by code_simp
  have c: "read_last_alert_state (sample_env 7) (sample_world (Some ?file)) = ''WARNING''"
    using read_last_alert_state_cases [of "sample_world (Some ?file)" "sample_env 7"] s
    by (simp add: sample_world_def sample_env_def)
  show ?thesis using a b c by simp
qed

section \<open>The helpers at the input and output boundary\<close>

subsection \<open>A handler that prints and returns a sentinel\<close>






subsection \<open>Where the bodies raise\<close>



lemma open_read_ok:
  "fault env (OpenRead p) = None \<Longrightarrow> files w p = Some t \<Longrightarrow> open_read env p w = (Inr t, w)"
  by (simp add: open_read_def check_def io_bind_def io_return_def)












subsection \<open>The retry loop of safe_request\<close>










subsection \<open>download_file\<close>




subsection \<open>Each helper catches what its body raises\<close>









subsection \<open>What the helpers do with an exception\<close>




subsection \<open>Writing and reading back a JSON file\<close>

lemma write_json_True:
  assumes "write_json env d p indent w = (Inr True, w')"
  shows "\<exists>enc. json_dump env d indent = Inr enc \<and> files w' p = Some enc"
proof -
  obtain r w1 where t: "write_json_try env d p indent w = (r, w1)"
    by (cases "write_json_try env d p indent w")
  have "r = Inr True \<and> w1 = w'"
  proof (cases r)
    case (Inr b)
    then show ?thesis using assms t by (simp add: write_json_def try_except_def)
  next
    case (Inl ex)
    then have "write_json env d p indent w
                 = io_bind (print_line env (''Error writing JSON file '' @ p @ '': '' @ exn_str ex))
                     (\<lambda>_. io_return False) w1"
      using t by (simp add: write_json_def try_except_def)
    then show ?thesis
      using assms
      by (auto simp: io_bind_def print_line_def check_def io_return_def io_raise_def
               split: option.splits)
  qed
  then have "write_json_try env d p indent w = (Inr True, w')" using t by simp
  then show ?thesis
    by (auto simp: write_json_try_def io_bind_def io_return_def write_to_def
             split: prod.splits sum.splits option.splits)
qed

text \<open>
  Claim C8, as amended. If \<open>write_json\<close> returns \<open>True\<close> for a dictionary and a path,
  opening that path for reading does not raise, and \<open>json\<close> reads back, from the text it
  wrote for this dictionary, the dictionary itself, then \<open>read_json\<close> on that path, in
  the state the write left, returns the dictionary.
\<close>

theorem json_round_trip:
  assumes "write_json env d p indent w = (Inr True, w')"
    and "fault env (OpenRead p) = None"
    and "\<forall>enc. json_dump env d indent = Inr enc \<longrightarrow> json_load env enc = Inr d"
  shows "read_json env p w' = (Inr (Some d), w')"
proof -
  obtain enc where d: "json_dump env d indent = Inr enc" and f: "files w' p = Some enc"
    using write_json_True [OF assms(1)] by blast
  have l: "json_load env enc = Inr d" using assms(3) d by simp
  have "read_json_try env p w' = (Inr (Some d), w')"
    using l by (simp add: read_json_try_def io_bind_def open_read_ok [OF assms(2) f]
                          io_return_def io_lift_def)
  then show ?thesis
    by (simp add: read_json_def try_except_def)
qed

lemma sample_write_json:
  "py_json_dump d 2 = Inr enc \<Longrightarrow>
     write_json (sample_lib_env no_fault) d ''a.json'' 2 sample_os
       = (Inr True, sample_os\<lparr>dirs := {''/tmp''}, files := [''a.json'' \<mapsto> enc]\<rparr>)"
  by (simp add: write_json_def write_json_try_def try_except_def ensure_directory_def
                mkdir_parents_def open_write_def write_to_def check_def io_bind_def
                io_return_def sample_lib_env_def no_fault_def sample_os_def)

lemma sample_read_json:
  "py_json_load enc = Inr d \<Longrightarrow>
     read_json (sample_lib_env no_fault) ''a.json''
         (sample_os\<lparr>dirs := {''/tmp''}, files := [''a.json'' \<mapsto> enc]\<rparr>)
       = (Inr (Some d), sample_os\<lparr>dirs := {''/tmp''}, files := [''a.json'' \<mapsto> enc]\<rparr>)"
  by (simp add: read_json_def read_json_try_def try_except_def open_read_def check_def
                io_bind_def io_return_def io_lift_def sample_lib_env_def no_fault_def
                sample_os_def)

theorem json_round_trip_witness:
  "write_json (sample_lib_env no_fault) [(StrKey ''name'', ''test''), (StrKey ''city'', ''Oslo'')]
       ''a.json'' 2 sample_os
     = (Inr True,
        sample_os\<lparr>dirs := {''/tmp''},
          files := [''a.json'' \<mapsto>
            the_enc [(StrKey ''name'', ''test''), (StrKey ''city'', ''Oslo'')]]\<rparr>)
   \<and> read_json (sample_lib_env no_fault) ''a.json''
         (sample_os\<lparr>dirs := {''/tmp''},
            files := [''a.json'' \<mapsto>
              the_enc [(StrKey ''name'', ''test''), (StrKey ''city'', ''Oslo'')]]\<rparr>)
     = (Inr (Some [(StrKey ''name'', ''test''), (StrKey ''city'', ''Oslo'')]),
        sample_os\<lparr>dirs := {''/tmp''},
          files := [''a.json'' \<mapsto>
            the_enc [(StrKey ''name'', ''test''), (StrKey ''city'', ''Oslo'')]]\<rparr>)"
proof -
  let ?d = "[(StrKey ''name'', ''test''), (StrKey ''city'', ''Oslo'')]"
  let ?w' = "sample_os\<lparr>dirs := {''/tmp''}, files := [''a.json'' \<mapsto> the_enc ?d]\<rparr>"
  have e: "py_json_dump ?d 2 = Inr (the_enc ?d)"
    by (simp add: the_enc_def py_json_dump_def)
  have l: "py_json_load (the_enc ?d) = Inr ?d"
    by code_simp
  have a: "write_json (sample_lib_env no_fault) ?d ''a.json'' 2 sample_os = (Inr True, ?w')"
    by (rule sample_write_json [OF e])
  have b: "fault (sample_lib_env no_fault) (OpenRead ''a.json'') = None"
    by (simp add: sample_lib_env_def no_fault_def)
  have c: "\<forall>enc. json_dump (sample_lib_env no_fault) ?d 2 = Inr enc
             \<longrightarrow> json_load (sample_lib_env no_fault) enc = Inr ?d"
    using e l by (simp add: sample_lib_env_def)
  show ?thesis using json_round_trip [OF a b c] a by simp
qed

text \<open>
  The claim as stated fails for a dictionary that \<open>json\<close> accepts and changes: the
  dictionary with the integer key 1 is written, \<open>write_json\<close> returns \<open>True\<close>, and what
  \<open>read_json\<close> returns has the string key \<open>1\<close>.
\<close>

theorem json_round_trip_counterexample:
  "write_json (sample_lib_env no_fault) [(IntKey 1, ''a'')] ''a.json'' 2 sample_os
     = (Inr True,
        sample_os\<lparr>dirs := {''/tmp''}, files := [''a.json'' \<mapsto> the_enc [(IntKey 1, ''a'')]]\<rparr>)
   \<and> read_json (sample_lib_env no_fault) ''a.json''
         (sample_os\<lparr>dirs := {''/tmp''}, files := [''a.json'' \<mapsto> the_enc [(IntKey 1, ''a'')]]\<rparr>)
     = (Inr (Some [(StrKey ''1'', ''a'')]),
        sample_os\<lparr>dirs := {''/tmp''}, files := [''a.json'' \<mapsto> the_enc [(IntKey 1, ''a'')]]\<rparr>)
   \<and> [(StrKey ''1'', ''a'')] \<noteq> [(IntKey 1, ''a'')]"
proof -
  let ?d = "[(IntKey 1, ''a'')]"
  have e: "py_json_dump ?d 2 = Inr (the_enc ?d)"
    by (simp add: the_enc_def py_json_dump_def)
  have l: "py_json_load (the_enc ?d) = Inr [(StrKey ''1'', ''a'')]"
    by code_simp
  show ?thesis
    using sample_write_json [OF e] sample_read_json [OF l] by simp
qed

subsection \<open>retry_operation: one wait after each failed attempt but the last, growing by the backoff\<close>

lemma grown_Suc: "grown (d * b) b k = grown d b (Suc k)"
  unfolding grown_def by (induction k) simp_all

lemma map_grown_Suc:
  "map (grown d b) [0..<Suc j] = d # map (grown (d * b) b) [0..<j]"
proof -
  have "map (grown d b) [0..<Suc j] = grown d b 0 # map (\<lambda>k. grown d b (Suc k)) [0..<j]"
    by (simp only: upt_rec [of 0 "Suc j"] map_Suc_upt [symmetric]) (simp del: upt_Suc)
  then show ?thesis by (simp add: grown_Suc) (simp add: grown_def)
qed

lemma state_before_Suc:
  "state_before func (snd (func t)) k = state_before func t (Suc k)"
  unfolding state_before_def by (induction k) simp_all

lemma call_result_Suc:
  "call_result func (snd (func t)) k = call_result func t (Suc k)"
  unfolding call_result_def by (simp only: state_before_Suc)

lemma range_items_step: "i < n \<Longrightarrow> range_items i n 1 = i # range_items (i + 1) n 1"
  by (subst range_items.simps) simp

lemma retry_loop_success:
  assumes "i + int j < n"
    and "\<forall>k < j. \<exists>ex. call_result func t k = Inl ex"
    and "call_result func t j = Inr v"
    and "\<forall>k < j. time_sleep (grown d b k) = None"
  shows "retry_loop func time_sleep n b (range_items i n 1) d t sl
           = (Returned v, sl @ map (grown d b) [0..<j], state_before func t (Suc j))"
  using assms
proof (induction j arbitrary: i d t sl)
  case 0
  have i: "i < n" using "0.prems"(1) by simp
  obtain r t' where f: "func t = (r, t')" by (cases "func t")
  have "r = Inr v" using "0.prems"(3) f by (simp add: call_result_def state_before_def)
  then show ?case
    using f by (simp add: range_items_step [OF i] state_before_def)
next
  case (Suc j)
  have i: "i < n" and i1: "i < n - 1" and i2: "(i + 1) + int j < n"
    using Suc.prems(1) by simp_all
  obtain r t' where f: "func t = (r, t')" by (cases "func t")
  obtain ex where "call_result func t 0 = Inl ex" using Suc.prems(2) by blast
  then have r: "r = Inl ex" using f by (simp add: call_result_def state_before_def)
  have s0: "time_sleep d = None" using Suc.prems(4) by (auto simp: grown_def dest: spec [of _ 0])
  have t': "t' = snd (func t)" using f by simp
  have a2: "\<forall>k < j. \<exists>ex. call_result func t' k = Inl ex"
    using Suc.prems(2) by (simp add: t' call_result_Suc)
  have a3: "call_result func t' j = Inr v"
    using Suc.prems(3) by (simp add: t' call_result_Suc)
  have a4: "\<forall>k < j. time_sleep (grown (d * b) b k) = None"
    using Suc.prems(4) by (simp add: grown_Suc)
  have ih: "retry_loop func time_sleep n b (range_items (i + 1) n 1) (d * b) t' (sl @ [d])
          = (Returned v, (sl @ [d]) @ map (grown (d * b) b) [0..<j], state_before func t' (Suc j))"
    by (rule Suc.IH [OF i2 a2 a3 a4])
  have sb: "state_before func t' (Suc j) = state_before func t (Suc (Suc j))"
    unfolding t' by (rule state_before_Suc)
  have step: "retry_loop func time_sleep n b (range_items i n 1) d t sl
          = retry_loop func time_sleep n b (range_items (i + 1) n 1) (d * b) t' (sl @ [d])"
    using f r i1 s0 by (simp add: range_items_step [OF i])
  show ?case
    unfolding step ih sb map_grown_Suc by simp
qed

lemma retry_loop_all_fail:
  assumes "i + int j = n - 1"
    and "\<forall>k < j. \<exists>ex. call_result func t k = Inl ex"
    and "call_result func t j = Inl e"
    and "\<forall>k < j. time_sleep (grown d b k) = None"
  shows "retry_loop func time_sleep n b (range_items i n 1) d t sl
           = (Raised e, sl @ map (grown d b) [0..<j], state_before func t (Suc j))"
  using assms
proof (induction j arbitrary: i d t sl)
  case 0
  have i: "i < n" and last: "\<not> i < n - 1" using "0.prems"(1) by simp_all
  obtain r t' where f: "func t = (r, t')" by (cases "func t")
  have "r = Inl e" using "0.prems"(3) f by (simp add: call_result_def state_before_def)
  then show ?case
    using f last by (simp add: range_items_step [OF i] state_before_def)
next
  case (Suc j)
  have i: "i < n" and i1: "i < n - 1" and i2: "(i + 1) + int j = n - 1"
    using Suc.prems(1) by simp_all
  obtain r t' where f: "func t = (r, t')" by (cases "func t")
  obtain ex where "call_result func t 0 = Inl ex" using Suc.prems(2) by blast
  then have r: "r = Inl ex" using f by (simp add: call_result_def state_before_def)
  have s0: "time_sleep d = None" using Suc.prems(4) by (auto simp: grown_def dest: spec [of _ 0])
  have t': "t' = snd (func t)" using f by simp
  have a2: "\<forall>k < j. \<exists>ex. call_result func t' k = Inl ex"
    using Suc.prems(2) by (simp add: t' call_result_Suc)
  have a3: "call_result func t' j = Inl e"
    using Suc.prems(3) by (simp add: t' call_result_Suc)
  have a4: "\<forall>k < j. time_sleep (grown (d * b) b k) = None"
    using Suc.prems(4) by (simp add: grown_Suc)
  have ih: "retry_loop func time_sleep n b (range_items (i + 1) n 1) (d * b) t' (sl @ [d])
          = (Raised e, (sl @ [d]) @ map (grown (d * b) b) [0..<j], state_before func t' (Suc j))"
    by (rule Suc.IH [OF i2 a2 a3 a4])
  have sb: "state_before func t' (Suc j) = state_before func t (Suc (Suc j))"
    unfolding t' by (rule state_before_Suc)
  have step: "retry_loop func time_sleep n b (range_items i n 1) d t sl
          = retry_loop func time_sleep n b (range_items (i + 1) n 1) (d * b) t' (sl @ [d])"
    using f r i1 s0 by (simp add: range_items_step [OF i])
  show ?case
    unfolding step ih sb map_grown_Suc by simp
qed

lemma retry_loop_waits:
  "\<exists>m. retry_waits (retry_loop func time_sleep n b atts d s sl) = sl @ map (grown d b) [0..<m]"
proof (induction atts arbitrary: d s sl)
  case Nil
  have "retry_waits (retry_loop func time_sleep n b [] d s sl) = sl @ map (grown d b) [0..<0]"
    by (simp add: retry_waits_def)
  then show ?case by blast
next
  case (Cons a atts)
  obtain r s' where f: "func s = (r, s')" by (cases "func s")
  have stop: "\<exists>m. sl = sl @ map (grown d b) [0..<m]"
    by (rule exI [of _ 0]) simp
  show ?case
  proof (cases "\<exists>ex. r = Inl ex \<and> a < n - 1 \<and> time_sleep d = None")
    case False
    then have "retry_waits (retry_loop func time_sleep n b (a # atts) d s sl) = sl"
      using f by (cases r; cases "time_sleep d") (auto simp: retry_waits_def)
    then show ?thesis using stop by simp
  next
    case True
    then obtain ex where r: "r = Inl ex" and a: "a < n - 1" and sl: "time_sleep d = None"
      by blast
    obtain m where m: "retry_waits (retry_loop func time_sleep n b atts (d * b) s' (sl @ [d]))
                   = (sl @ [d]) @ map (grown (d * b) b) [0..<m]"
      using Cons.IH by blast
    have "retry_waits (retry_loop func time_sleep n b (a # atts) d s sl)
            = sl @ map (grown d b) [0..<Suc m]"
      using f r a sl m by (simp add: map_grown_Suc del: upt_Suc)
    then show ?thesis by blast
  qed
qed

text \<open>
  Claim C6, as amended. The waits of \<open>retry_operation\<close> are not one fixed delay. After the
  failed attempt number k (from 0), unless it was the last attempt allowed, it sleeps the
  initial delay multiplied k times by \<open>backoff\<close>, where \<open>time.sleep\<close> accepts that delay:
  an operation that fails j times and then succeeds, with more than j attempts allowed,
  has slept exactly these j delays and its value is returned; an operation that fails at
  every one of the \<open>max_attempts\<close> attempts has slept exactly the first
  \<open>max_attempts - 1\<close> of them and its last exception is raised. In every run the waits
  are such delays, in order, and where multiplying by \<open>backoff\<close> leaves the delay
  unchanged they all equal the initial delay.
\<close>

theorem retry_operation_waits:
  fixes delay backoff :: "'d::times"
  shows "(int j < max_attempts
            \<and> (\<forall>k < j. \<exists>ex. call_result func s k = Inl ex)
            \<and> call_result func s j = Inr v
            \<and> (\<forall>k < j. time_sleep (grown delay backoff k) = None)
          \<longrightarrow> retry_operation func time_sleep max_attempts delay backoff s
                = (Returned v, map (grown delay backoff) [0..<j], state_before func s (Suc j)))
       \<and> (max_attempts = int (Suc j)
            \<and> (\<forall>k < j. \<exists>ex. call_result func s k = Inl ex)
            \<and> call_result func s j = Inl e
            \<and> (\<forall>k < j. time_sleep (grown delay backoff k) = None)
          \<longrightarrow> retry_operation func time_sleep max_attempts delay backoff s
                = (Raised e, map (grown delay backoff) [0..<j], state_before func s (Suc j)))
       \<and> (\<forall>k < length (retry_waits (retry_operation func time_sleep max_attempts delay backoff s)).
            retry_waits (retry_operation func time_sleep max_attempts delay backoff s) ! k
              = grown delay backoff k)
       \<and> (delay * backoff = delay \<longrightarrow>
            (\<forall>w \<in> set (retry_waits (retry_operation func time_sleep max_attempts delay backoff s)).
               w = delay))"
proof -
  let ?r = "retry_operation func time_sleep max_attempts delay backoff s"
  have a: "int j < max_attempts
            \<and> (\<forall>k < j. \<exists>ex. call_result func s k = Inl ex)
            \<and> call_result func s j = Inr v
            \<and> (\<forall>k < j. time_sleep (grown delay backoff k) = None)
          \<longrightarrow> ?r = (Returned v, map (grown delay backoff) [0..<j], state_before func s (Suc j))"
  proof (intro impI, elim conjE)
    assume n: "int j < max_attempts"
      and f: "\<forall>k < j. \<exists>ex. call_result func s k = Inl ex"
      and l: "call_result func s j = Inr v"
      and sl: "\<forall>k < j. time_sleep (grown delay backoff k) = None"
    have i: "0 + int j < max_attempts" using n by simp
    show "?r = (Returned v, map (grown delay backoff) [0..<j], state_before func s (Suc j))"
      unfolding retry_operation_def
      using retry_loop_success [OF i f l sl, of "[]"] by simp
  qed
  have b: "max_attempts = int (Suc j)
            \<and> (\<forall>k < j. \<exists>ex. call_result func s k = Inl ex)
            \<and> call_result func s j = Inl e
            \<and> (\<forall>k < j. time_sleep (grown delay backoff k) = None)
          \<longrightarrow> ?r = (Raised e, map (grown delay backoff) [0..<j], state_before func s (Suc j))"
  proof (intro impI, elim conjE)
    assume n: "max_attempts = int (Suc j)"
      and f: "\<forall>k < j. \<exists>ex. call_result func s k = Inl ex"
      and l: "call_result func s j = Inl e"
      and sl: "\<forall>k < j. time_sleep (grown delay backoff k) = None"
    have i: "0 + int j = max_attempts - 1" using n by simp
    show "?r = (Raised e, map (grown delay backoff) [0..<j], state_before func s (Suc j))"
      unfolding retry_operation_def
      using retry_loop_all_fail [OF i f l sl, of "[]"] by simp
  qed
  obtain m where m: "retry_waits ?r = map (grown delay backoff) [0..<m]"
    using retry_loop_waits [of func time_sleep max_attempts backoff _ delay s "[]"]
    unfolding retry_operation_def by auto
  have c: "\<forall>k < length (retry_waits ?r). retry_waits ?r ! k = grown delay backoff k"
    by (subst (2) m, subst m) simp
  have fixed: "grown delay backoff k = delay" if "delay * backoff = delay" for k
    using that unfolding grown_def by (induction k) simp_all
  have d: "delay * backoff = delay \<longrightarrow> (\<forall>w \<in> set (retry_waits ?r). w = delay)"
    by (subst m) (auto simp: fixed)
  show ?thesis using a b c d by blast
qed

theorem retry_operation_waits_witness:
  "retry_operation failing_then_success py_sleep 3 1 2 0 = (Returned ''success'', [1, 2], 3)
   \<and> retry_operation always_fail py_sleep 3 1 2 ()
       = (Raised (Exception ''Always fails''), [1, 2], ())
   \<and> retry_waits (retry_operation always_fail py_sleep 3 1 1 ()) = [1, 1]"
proof -
  have sb: "state_before failing_then_success 0 k = k" for k
    unfolding state_before_def by (induction k) (simp_all add: failing_then_success_def)
  have g: "grown (1::real) 2 0 = 1" "grown (1::real) 2 (Suc 0) = 2" "grown (1::real) 2 2 = 4"
    by (simp_all add: grown_def numeral_2_eq_2)
  have m: "map (grown (1::real) 2) [0..<2] = [1, 2]"
    by (simp add: numeral_2_eq_2 g)
  have f1: "\<forall>k < 2. \<exists>ex. call_result failing_then_success 0 k = Inl ex"
    by (simp add: call_result_def sb failing_then_success_def)
  have f2: "call_result failing_then_success 0 2 = Inr ''success''"
    by (simp add: call_result_def sb failing_then_success_def)
  have f3: "\<forall>k < 2. py_sleep (grown 1 2 k) = None"
    by (auto simp: less_2_cases_iff g py_sleep_def)
  have a: "retry_operation failing_then_success py_sleep 3 1 2 0 = (Returned ''success'', [1, 2], 3)"
    using retry_operation_waits
      [of 2 3 failing_then_success 0 "''success''" py_sleep 1 2, THEN conjunct1] f1 f2 f3
    by (simp add: m sb)
  have h1: "\<forall>k < 2. \<exists>ex. call_result always_fail () k = Inl ex"
    by (simp add: call_result_def always_fail_def)
  have h2: "call_result always_fail () 2 = Inl (Exception ''Always fails'')"
    by (simp add: call_result_def always_fail_def)
  have b: "retry_operation always_fail py_sleep 3 1 2 ()
             = (Raised (Exception ''Always fails''), [1, 2], ())"
    using retry_operation_waits
      [where j = 2 and max_attempts = 3 and func = always_fail and s = "()"
         and e = "Exception ''Always fails''" and time_sleep = py_sleep
         and delay = "1::real" and backoff = 2,
       THEN conjunct2, THEN conjunct1] h1 h2 f3
    by (simp add: m)
  have r: "retry_operation always_fail py_sleep 3 1 1 ()
             = (Raised (Exception ''Always fails''), [1, 1], ())"
    by (simp add: retry_operation_def always_fail_def py_sleep_def range_items.simps)
  have c: "retry_waits (retry_operation always_fail py_sleep 3 1 1 ()) = [1, 1]"
    using retry_operation_waits
      [where max_attempts = 3 and func = always_fail and s = "()" and time_sleep = py_sleep
         and delay = "1::real" and backoff = 1,
       THEN conjunct2, THEN conjunct2, THEN conjunct2] r
    by (simp add: retry_waits_def)
  show ?thesis using a b c by simp
qed

text \<open>
  The claim as stated fails with the default delay 1.0 and backoff 2.0 (both exact as
  floating-point numbers): an operation that always fails, tried three times, waits 1
  and then 2.
\<close>

theorem retry_operation_fixed_delay_counterexample:
  "retry_waits (retry_operation always_fail py_sleep 3 1 2 ()) = [1, 2]
   \<and> retry_waits (retry_operation always_fail py_sleep 3 1 2 ()) ! 1 \<noteq> 1"
  by (simp add: retry_operation_def retry_waits_def always_fail_def py_sleep_def
                range_items.simps)

subsection \<open>chunk_list: the chunk law\<close>

lemma py_slice_nonneg:
  "0 \<le> i \<Longrightarrow> i \<le> int (length lst) \<Longrightarrow> 0 \<le> c \<Longrightarrow>
     py_slice lst i (i + c) = take (nat c) (drop (nat i) lst)"
  by (auto simp: py_slice_def slice_index_def Let_def nat_add_distrib)

lemma chunks_from_step:
  "0 < cs \<Longrightarrow> i < int (length lst) \<Longrightarrow>
     chunks_from lst cs i = py_slice lst i (i + cs) # chunks_from lst cs (i + cs)"
  unfolding chunks_from_def by (subst range_items.simps) simp

lemma chunks_from_done:
  "0 < cs \<Longrightarrow> int (length lst) \<le> i \<Longrightarrow> chunks_from lst cs i = []"
  unfolding chunks_from_def by (subst range_items.simps) simp

lemma concat_chunks_from:
  "0 < cs \<Longrightarrow> 0 \<le> i \<Longrightarrow> concat (chunks_from lst cs i) = drop (nat i) lst"
proof (induction i "int (length lst)" cs rule: range_items.induct)
  case (1 i cs)
  show ?case
  proof (cases "i < int (length lst)")
    case True
    have "concat (chunks_from lst cs i) =
            take (nat cs) (drop (nat i) lst) @ drop (nat (i + cs)) lst"
      using 1 True by (simp add: chunks_from_step py_slice_nonneg)
    also have "drop (nat (i + cs)) lst = drop (nat cs) (drop (nat i) lst)"
      using 1 by (simp add: nat_add_distrib add.commute)
    finally show ?thesis by (simp only: append_take_drop_id)
  next
    case False
    then show ?thesis using 1 by (simp add: chunks_from_done)
  qed
qed

lemma chunks_from_full:
  "0 < cs \<Longrightarrow> 0 \<le> i \<Longrightarrow> Suc k < length (chunks_from lst cs i) \<Longrightarrow>
     length (chunks_from lst cs i ! k) = nat cs"
proof (induction i "int (length lst)" cs arbitrary: k rule: range_items.induct)
  case (1 i cs)
  show ?case
  proof (cases "i < int (length lst)")
    case True
    note step = chunks_from_step [OF "1.prems"(1) True]
    show ?thesis
    proof (cases k)
      case 0
      have "chunks_from lst cs (i + cs) \<noteq> []"
        using "1.prems"(3) step by auto
      then have "i + cs < int (length lst)"
        using "1.prems"(1) chunks_from_done [of cs lst "i + cs"] by force
      then show ?thesis
        using 0 step "1.prems" True by (simp add: py_slice_nonneg)
    next
      case (Suc k')
      then show ?thesis
        using "1.hyps" [of k'] "1.prems" True step by simp
    qed
  next
    case False
    then show ?thesis using 1 by (simp add: chunks_from_done)
  qed
qed

lemma chunks_from_nonempty:
  "0 < cs \<Longrightarrow> 0 \<le> i \<Longrightarrow> c \<in> set (chunks_from lst cs i) \<Longrightarrow> c \<noteq> [] \<and> length c \<le> nat cs"
proof (induction i "int (length lst)" cs rule: range_items.induct)
  case (1 i cs)
  show ?case
  proof (cases "i < int (length lst)")
    case True
    note step = chunks_from_step [OF "1.prems"(1) True]
    have "c = py_slice lst i (i + cs) \<or> c \<in> set (chunks_from lst cs (i + cs))"
      using "1.prems"(3) step by simp
    then show ?thesis
    proof
      assume "c = py_slice lst i (i + cs)"
      then show ?thesis
        using "1.prems" True by (simp add: py_slice_nonneg)
    next
      assume "c \<in> set (chunks_from lst cs (i + cs))"
      then show ?thesis
        using "1.hyps" "1.prems" True by simp
    qed
  next
    case False
    then show ?thesis using 1 by (simp add: chunks_from_done)
  qed
qed

text \<open>
  Claim C9. For every list and every chunk size of at least 1, \<open>chunk_list\<close> returns
  (it does not raise), the chunks concatenated in order give the list back, every chunk
  that is followed by another one has exactly \<open>chunk_size\<close> elements, no chunk is empty
  or longer than \<open>chunk_size\<close>, and a non-empty list gives a non-empty last chunk.
\<close>

theorem chunk_list_law:
  assumes "1 \<le> chunk_size"
  shows "\<exists>chunks. chunk_list lst chunk_size = Inr chunks
           \<and> concat chunks = lst
           \<and> (\<forall>k. Suc k < length chunks \<longrightarrow> length (chunks ! k) = nat chunk_size)
           \<and> (\<forall>c \<in> set chunks. c \<noteq> [] \<and> length c \<le> nat chunk_size)
           \<and> (lst \<noteq> [] \<longrightarrow> chunks \<noteq> [] \<and> last chunks \<noteq> [])"
proof -
  have cs: "0 < chunk_size" using assms by simp
  have eq: "chunk_list lst chunk_size = Inr (chunks_from lst chunk_size 0)"
    using cs by (simp add: chunk_list_def py_range_def chunks_from_def)
  have c1: "concat (chunks_from lst chunk_size 0) = lst"
    using concat_chunks_from [OF cs, of 0 lst] by simp
  have c2: "\<forall>k. Suc k < length (chunks_from lst chunk_size 0) \<longrightarrow>
              length (chunks_from lst chunk_size 0 ! k) = nat chunk_size"
    using chunks_from_full [OF cs, where i = 0 and lst = lst] by simp
  have c3: "\<forall>c \<in> set (chunks_from lst chunk_size 0). c \<noteq> [] \<and> length c \<le> nat chunk_size"
    using chunks_from_nonempty [OF cs, where i = 0 and lst = lst] by simp
  have c4: "lst \<noteq> [] \<longrightarrow> chunks_from lst chunk_size 0 \<noteq> [] \<and> last (chunks_from lst chunk_size 0) \<noteq> []"
  proof
    assume "lst \<noteq> []"
    then have ne: "chunks_from lst chunk_size 0 \<noteq> []" using c1 by auto
    then have "last (chunks_from lst chunk_size 0) \<in> set (chunks_from lst chunk_size 0)"
      by simp
    then show "chunks_from lst chunk_size 0 \<noteq> [] \<and> last (chunks_from lst chunk_size 0) \<noteq> []"
      using ne c3 by blast
  qed
  show ?thesis using eq c1 c2 c3 c4 by blast
qed

theorem chunk_list_law_witness:
  "(1::int) \<le> 2 \<and> chunk_list [1, 2, 3, 4, 5 :: nat] 2 = Inr [[1, 2], [3, 4], [5]]"
proof -
  have e: "chunk_list [1, 2, 3, 4, 5 :: nat] 2 = Inr [[1, 2], [3, 4], [5]]"
    by code_simp
  show ?thesis using chunk_list_law [of 2 "[1, 2, 3, 4, 5 :: nat]"] e by simp
qed

subsection \<open>clean_filename: the result, its fallback, and idempotence\<close>














end
